theory Spec2Isabelle
  imports Complex_Main "HOL-Library.Sublist" "HOL-Library.Multiset"
begin

text \<open>
  A shallow embedding of \<^verbatim>\<open>generate_mealplan.py\<close>: the menu fetcher
  (\<^verbatim>\<open>fetch_json\<close>), the item extractor (\<^verbatim>\<open>extract_items\<close>) and the plan builder
  (\<^verbatim>\<open>build_plan\<close>).

  Conventions of the model.
  \<^item> Python numbers (the integers of the catalog, the floats made by \<^verbatim>\<open>float(cals)\<close>, the
    numbers of the fetched JSON) are real numbers; floating-point rounding, overflow,
    infinities and NaN are outside the model.
  \<^item> Python strings are lists of 8-bit characters and stand for ASCII text; \<^verbatim>\<open>lower()\<close>
    and \<^verbatim>\<open>strip()\<close> are the ASCII parts of the Python methods.
  \<^item> A raised exception is the \<open>Inl\<close> branch of a sum; the \<^verbatim>\<open>while\<close> loop of
    \<^verbatim>\<open>build_plan\<close>, which has no exit of its own when a scan finds nothing, is a partial
    function whose value \<open>None\<close> stands for running forever.
  \<^item> Today's date, the network and the parser behind \<^verbatim>\<open>float\<close> on a string are
    parameters of the functions that use them.
\<close>

section \<open>Menu items and the always-available catalog\<close>

record item =
  name :: string
  calories :: real

definition ALWAYS_AVAILABLE :: "item list" where
  "ALWAYS_AVAILABLE =
    [\<lparr>name = ''Salad bar'', calories = 300\<rparr>,
     \<lparr>name = ''Deli sandwich'', calories = 600\<rparr>,
     \<lparr>name = ''Yogurt'', calories = 150\<rparr>,
     \<lparr>name = ''Pizza'', calories = 350\<rparr>,
     \<lparr>name = ''Chicken tenders'', calories = 400\<rparr>,
     \<lparr>name = ''French fries'', calories = 300\<rparr>,
     \<lparr>name = ''Grilled chicken'', calories = 250\<rparr>,
     \<lparr>name = ''Pasta with sauce'', calories = 500\<rparr>]"

section \<open>JSON values and the Python operations used on them\<close>

datatype json =
    JNull
  | JBool bool
  | JNum real
  | JStr string
  | JArr "json list"
  | JObj "(string \<times> json) list"

datatype py_error = AttributeError | TypeError | ValueError | RuntimeError

text \<open>Truth value testing, as \<^verbatim>\<open>or\<close> and \<^verbatim>\<open>if\<close> apply it.\<close>

fun truthy :: "json \<Rightarrow> bool" where
  "truthy JNull = False"
| "truthy (JBool b) = b"
| "truthy (JNum r) = (r \<noteq> 0)"
| "truthy (JStr s) = (s \<noteq> [])"
| "truthy (JArr xs) = (xs \<noteq> [])"
| "truthy (JObj kvs) = (kvs \<noteq> [])"

definition py_or :: "json \<Rightarrow> json \<Rightarrow> json" where
  "py_or x y = (if truthy x then x else y)"

text \<open>
  \<^verbatim>\<open>x.get(k, dflt)\<close>: only a dict has the method, any other value raises
  \<^verbatim>\<open>AttributeError\<close>. \<^verbatim>\<open>x.get(k)\<close> is \<open>py_get x k JNull\<close>.
\<close>

fun py_get :: "json \<Rightarrow> string \<Rightarrow> json \<Rightarrow> py_error + json" where
  "py_get (JObj kvs) k dflt = Inr (case map_of kvs k of None \<Rightarrow> dflt | Some v \<Rightarrow> v)"
| "py_get _ k dflt = Inl AttributeError"

text \<open>
  The elements a \<^verbatim>\<open>for\<close> loop visits: those of a list, the characters of a string, the keys
  of a dict; any other value raises \<^verbatim>\<open>TypeError\<close>.
\<close>

fun py_iter :: "json \<Rightarrow> py_error + json list" where
  "py_iter (JArr xs) = Inr xs"
| "py_iter (JStr s) = Inr (map (\<lambda>c. JStr [c]) s)"
| "py_iter (JObj kvs) = Inr (map (\<lambda>kv. JStr (fst kv)) kvs)"
| "py_iter _ = Inl TypeError"

definition is_space :: "char \<Rightarrow> bool" where
  "is_space c = ((of_char c :: nat) \<in> {9, 10, 11, 12, 13, 28, 29, 30, 31, 32})"

definition str_strip :: "string \<Rightarrow> string" where
  "str_strip s = rev (dropWhile is_space (rev (dropWhile is_space s)))"

definition lower_char :: "char \<Rightarrow> char" where
  "lower_char c =
     (case map_of (zip ''ABCDEFGHIJKLMNOPQRSTUVWXYZ'' ''abcdefghijklmnopqrstuvwxyz'') c of
        None \<Rightarrow> c
      | Some l \<Rightarrow> l)"

definition str_lower :: "string \<Rightarrow> string" where
  "str_lower s = map lower_char s"

text \<open>\<^verbatim>\<open>x.strip()\<close>: only a string has the method.\<close>

fun py_strip :: "json \<Rightarrow> py_error + string" where
  "py_strip (JStr s) = Inr (str_strip s)"
| "py_strip _ = Inl AttributeError"

text \<open>
  \<^verbatim>\<open>float(x)\<close>: a number is itself, a boolean is 0 or 1, a string goes through the parser
  \<open>parse\<close> (\<open>None\<close> where Python raises \<^verbatim>\<open>ValueError\<close>), anything else raises
  \<^verbatim>\<open>TypeError\<close>.
\<close>

fun py_float :: "(string \<Rightarrow> real option) \<Rightarrow> json \<Rightarrow> py_error + real" where
  "py_float parse (JNum r) = Inr r"
| "py_float parse (JBool b) = Inr (if b then 1 else 0)"
| "py_float parse (JStr s) = (case parse s of None \<Rightarrow> Inl ValueError | Some r \<Rightarrow> Inr r)"
| "py_float parse _ = Inl TypeError"

section \<open>The menu fetcher\<close>

text \<open>
  What \<^verbatim>\<open>requests.get(url, timeout=10)\<close> gives: an exception, or a response with its status
  code and what \<^verbatim>\<open>r.json()\<close> returns (\<open>None\<close> when it raises). \<open>fetch_json\<close> returns its
  result together with the URLs it requested, in order. Both the request and \<^verbatim>\<open>r.json()\<close>
  stand inside the \<^verbatim>\<open>try\<close> whose handler is \<^verbatim>\<open>except: continue\<close>.
\<close>

datatype response = NetworkError | Response nat "json option"

fun fetch_json :: "(string \<Rightarrow> response) \<Rightarrow> string list \<Rightarrow> (py_error + json) \<times> string list" where
  "fetch_json get [] = (Inl RuntimeError, [])"
| "fetch_json get (url # rest) =
     (case get url of
        NetworkError \<Rightarrow> (case fetch_json get rest of (r, requested) \<Rightarrow> (r, url # requested))
      | Response status_code body \<Rightarrow>
          if status_code = 200 then
            (case body of
               Some j \<Rightarrow> (Inr j, [url])
             | None \<Rightarrow> (case fetch_json get rest of (r, requested) \<Rightarrow> (r, url # requested)))
          else (case fetch_json get rest of (r, requested) \<Rightarrow> (r, url # requested)))"

text \<open>A candidate the fetcher accepts: status 200 and a body that parses.\<close>

definition usable :: "(string \<Rightarrow> response) \<Rightarrow> string \<Rightarrow> bool" where
  "usable get url =
     (case get url of
        NetworkError \<Rightarrow> False
      | Response status_code body \<Rightarrow> status_code = 200 \<and> body \<noteq> None)"

section \<open>The item extractor\<close>

definition is_excluded :: "string \<Rightarrow> bool" where
  "is_excluded nm =
     (sublist ''fish'' (str_lower nm) \<or> sublist ''salmon'' (str_lower nm) \<or>
      sublist ''tilapia'' (str_lower nm))"

text \<open>
  The body of the inner loop (lines 66 to 76) for one menu entry \<open>mi\<close>: \<open>Inr None\<close> is
  \<^verbatim>\<open>continue\<close>, \<open>Inr (Some it)\<close> is the appended item.
\<close>

definition entry_item :: "(string \<Rightarrow> real option) \<Rightarrow> json \<Rightarrow> py_error + item option" where
  "entry_item parse mi =
     (case py_get mi ''food'' JNull of Inl e \<Rightarrow> Inl e | Inr fv \<Rightarrow>
      let food = py_or fv (JObj []) in
      case py_get food ''name'' JNull of Inl e \<Rightarrow> Inl e | Inr fname \<Rightarrow>
      case (if truthy fname then Inr fname else py_get mi ''text'' JNull) of
        Inl e \<Rightarrow> Inl e | Inr nt \<Rightarrow>
      case py_strip (py_or nt (JStr ''Unknown'')) of Inl e \<Rightarrow> Inl e | Inr nm \<Rightarrow>
      if is_excluded nm then Inr None
      else
        case py_get food ''rounded_nutrition_info'' JNull of Inl e \<Rightarrow> Inl e | Inr rv \<Rightarrow>
        let rounded = py_or rv (JObj []) in
        case py_get rounded ''calories'' JNull of Inl e \<Rightarrow> Inl e | Inr rc \<Rightarrow>
        case (if truthy rc then Inr rc
              else case py_get mi ''aggregated_data'' (JObj []) of
                     Inl e \<Rightarrow> Inl e
                   | Inr ad \<Rightarrow>
                       (case py_get ad ''calories'' JNull of
                          Inl e \<Rightarrow> Inl e
                        | Inr ac \<Rightarrow> Inr (if truthy ac then ac else JNull))) of
          Inl e \<Rightarrow> Inl e
        | Inr cals \<Rightarrow>
            if truthy cals then
              (case py_float parse cals of
                 Inl e \<Rightarrow> Inl e
               | Inr c \<Rightarrow> Inr (Some \<lparr>name = nm, calories = c\<rparr>))
            else Inr (Some \<lparr>name = nm, calories = 250\<rparr>))"

text \<open>The inner loop over the menu entries of one day, appending to \<open>items\<close>.\<close>

fun menu_items_loop ::
  "(string \<Rightarrow> real option) \<Rightarrow> json list \<Rightarrow> item list \<Rightarrow> py_error + item list" where
  "menu_items_loop parse [] items = Inr items"
| "menu_items_loop parse (mi # rest) items =
     (case entry_item parse mi of
        Inl e \<Rightarrow> Inl e
      | Inr None \<Rightarrow> menu_items_loop parse rest items
      | Inr (Some it) \<Rightarrow> menu_items_loop parse rest (items @ [it]))"

text \<open>The outer loop over the day records.\<close>

fun days_loop ::
  "(string \<Rightarrow> real option) \<Rightarrow> string \<Rightarrow> json list \<Rightarrow> item list \<Rightarrow> py_error + item list" where
  "days_loop parse today_str [] items = Inr items"
| "days_loop parse today_str (d # rest) items =
     (case py_get d ''date'' JNull of
        Inl e \<Rightarrow> Inl e
      | Inr date \<Rightarrow>
          if date = JStr today_str then
            (case py_get d ''menu_items'' (JArr []) of
               Inl e \<Rightarrow> Inl e
             | Inr ms \<Rightarrow>
                 (case py_iter ms of
                    Inl e \<Rightarrow> Inl e
                  | Inr mis \<Rightarrow>
                      (case menu_items_loop parse mis items of
                         Inl e \<Rightarrow> Inl e
                       | Inr items' \<Rightarrow> days_loop parse today_str rest items')))
          else days_loop parse today_str rest items)"

definition extract_items ::
  "(string \<Rightarrow> real option) \<Rightarrow> string \<Rightarrow> json \<Rightarrow> py_error + item list" where
  "extract_items parse today_str week_json =
     (case py_get week_json ''days'' JNull of Inl e \<Rightarrow> Inl e | Inr d1 \<Rightarrow>
      case (if truthy d1 then Inr d1 else py_get week_json ''menu_days'' JNull) of
        Inl e \<Rightarrow> Inl e | Inr d2 \<Rightarrow>
      case py_iter (py_or d2 (JArr [])) of
        Inl e \<Rightarrow> Inl e
      | Inr days \<Rightarrow> days_loop parse today_str days [])"



fun json_field :: "string \<Rightarrow> json \<Rightarrow> json" where
  "json_field k (JObj kvs) = (case map_of kvs k of None \<Rightarrow> JNull | Some v \<Rightarrow> v)"
| "json_field k _ = JNull"

section \<open>The plan builder\<close>

record plan =
  Breakfast :: "item list"
  Dinner :: "item list"

text \<open>
  Lines 81 and 83: the catalog is appended and the whole is sorted by calories, highest
  first. \<^verbatim>\<open>sorted(..., reverse=True)\<close> is stable, as is \<open>sort_key\<close> on the negated key.
\<close>

definition items_sorted :: "item list \<Rightarrow> item list" where
  "items_sorted items = sort_key (\<lambda>x. - calories x) (items @ ALWAYS_AVAILABLE)"

text \<open>
  The \<^verbatim>\<open>for\<close> loop of lines 91 to 96, up to its \<^verbatim>\<open>break\<close>: the first item whose name is not
  in \<open>used\<close>, or \<open>None\<close> when the loop runs off the end of the list.
\<close>

definition first_unused :: "string set \<Rightarrow> item list \<Rightarrow> item option" where
  "first_unused used its = find (\<lambda>it. name it \<notin> used) its"

text \<open>
  The \<^verbatim>\<open>while\<close> loop of line 90 on the state \<open>(used, plan[meal], meal_total)\<close>. A scan that
  finds nothing changes nothing, and the loop goes round again with the same state.
\<close>

partial_function (option) fill_slot ::
  "item list \<Rightarrow> string set \<times> item list \<times> real \<Rightarrow> (string set \<times> item list \<times> real) option"
where
  "fill_slot sorted_items st =
     (case st of (used, slot, meal_total) \<Rightarrow>
        if meal_total < 1200 \<and> length slot < 6 then
          (case first_unused used sorted_items of
             None \<Rightarrow> fill_slot sorted_items (used, slot, meal_total)
           | Some it \<Rightarrow>
               fill_slot sorted_items
                 (insert (name it) used, slot @ [it], meal_total + calories it))
        else Some (used, slot, meal_total))"

definition build_plan :: "item list \<Rightarrow> plan option" where
  "build_plan items =
     (case fill_slot (items_sorted items) ({}, [], 0) of
        None \<Rightarrow> None
      | Some (used, breakfast, _) \<Rightarrow>
          (case fill_slot (items_sorted items) (used, [], 0) of
             None \<Rightarrow> None
           | Some (_, dinner, _) \<Rightarrow> Some \<lparr>Breakfast = breakfast, Dinner = dinner\<rparr>))"

subsection \<open>The single-pass selection of the specification\<close>

text \<open>
  The specification allows the selection to be done as one pre-filtered pass: the sorted
  sequence is first reduced to the first occurrence of every name (\<open>prefilter\<close>), and each
  slot then takes items from the front of what is left until its stop condition holds or
  nothing is left (\<open>fill_from\<close>, which returns the slot and the remainder).
\<close>

fun prefilter :: "string set \<Rightarrow> item list \<Rightarrow> item list" where
  "prefilter used [] = []"
| "prefilter used (x # xs) =
     (if name x \<in> used then prefilter used xs
      else x # prefilter (insert (name x) used) xs)"

fun fill_from :: "item list \<Rightarrow> item list \<Rightarrow> real \<Rightarrow> item list \<times> item list" where
  "fill_from [] slot meal_total = (slot, [])"
| "fill_from (x # xs) slot meal_total =
     (if meal_total < 1200 \<and> length slot < 6
      then fill_from xs (slot @ [x]) (meal_total + calories x)
      else (slot, x # xs))"

definition single_pass_plan :: "item list \<Rightarrow> plan" where
  "single_pass_plan items =
     (let (breakfast, rest) = fill_from (prefilter {} (items_sorted items)) [] 0;
          (dinner, _) = fill_from rest [] 0
      in \<lparr>Breakfast = breakfast, Dinner = dinner\<rparr>)"

subsection \<open>Auxiliary notions for the proofs\<close>

text \<open>
  \<open>supplied P len meal_total\<close>: the pre-filtered sequence \<open>P\<close> does not run out before the
  stop condition of a slot holding \<open>len\<close> items with running total \<open>meal_total\<close> is met.
  \<open>fill_count\<close> is the number of items such a slot takes from \<open>P\<close>.
\<close>

fun supplied :: "item list \<Rightarrow> nat \<Rightarrow> real \<Rightarrow> bool" where
  "supplied [] len meal_total = (1200 \<le> meal_total \<or> 6 \<le> len)"
| "supplied (x # xs) len meal_total =
     (if meal_total < 1200 \<and> len < 6 then supplied xs (Suc len) (meal_total + calories x)
      else True)"

fun fill_count :: "item list \<Rightarrow> nat \<Rightarrow> real \<Rightarrow> nat" where
  "fill_count [] len meal_total = 0"
| "fill_count (x # xs) len meal_total =
     (if meal_total < 1200 \<and> len < 6
      then Suc (fill_count xs (Suc len) (meal_total + calories x))
      else 0)"

section \<open>Concrete inputs\<close>

text \<open>
  A week with one day record of another date and two records of the date
  \<^verbatim>\<open>2026-11-04\<close>; a menu entry whose food name is the empty string; a network in which
  \<^verbatim>\<open>a\<close> answers 200 with a body that is not JSON, \<^verbatim>\<open>b\<close> answers 200 with the JSON number 1
  and every other URL fails; a string parser that accepts nothing.
\<close>

definition example_days :: "json list" where
  "example_days =
     [JObj [(''date'', JStr ''2026-11-03''),
            (''menu_items'', JArr [JObj [(''text'', JStr ''Stale soup'')]])],
      JObj [(''date'', JStr ''2026-11-04''),
            (''menu_items'', JArr [
               JObj [(''food'', JObj [(''name'', JStr '' Burger ''),
                                     (''rounded_nutrition_info'', JObj [(''calories'', JNum 900)])])],
               JObj [(''food'', JObj [(''name'', JStr ''Fried FISH'')])],
               JObj [(''food'', JNull), (''text'', JStr ''Soda''),
                     (''aggregated_data'', JObj [(''calories'', JNum 200)])]])],
      JObj [(''date'', JStr ''2026-11-04''),
            (''menu_items'', JArr [
               JObj [(''food'', JObj [(''name'', JStr []),
                                     (''rounded_nutrition_info'', JObj [(''calories'', JNum 0)])]),
                     (''text'', JStr ''Soup'')],
               JObj []])]]"

definition example_week :: json where
  "example_week = JObj [(''days'', JArr example_days)]"


definition example_entry :: json where
  "example_entry = JObj [(''food'', JObj [(''name'', JStr [])]), (''text'', JStr ''Soup'')]"

definition example_entry_calories :: json where
  "example_entry_calories =
     JObj [(''food'', JObj [(''name'', JStr '' Burger ''),
                           (''rounded_nutrition_info'', JObj [(''calories'', JNum 0)])]),
           (''text'', JStr ''Sandwich''),
           (''aggregated_data'', JObj [(''calories'', JNum 640)])]"

definition example_net :: "string \<Rightarrow> response" where
  "example_net url =
     (if url = ''a'' then Response 200 None
      else if url = ''b'' then Response 200 (Some (JNum 1))
      else NetworkError)"

definition no_parse :: "string \<Rightarrow> real option" where
  "no_parse s = None"

section \<open>The rescan loop and the single pass\<close>

lemma first_unused_prefilter:
  "first_unused used S = (case prefilter used S of [] \<Rightarrow> None | x # _ \<Rightarrow> Some x)"
  by (induction S) (auto simp: first_unused_def)

lemma prefilter_step:
  "prefilter used S = x # P \<Longrightarrow> prefilter (insert (name x) used) S = P"
  by (induction S) (auto split: if_splits)

lemma fill_slot_prefilter:
  "supplied (prefilter used S) (length slot) meal_total \<Longrightarrow>
   \<exists>used' meal_total'.
     fill_slot S (used, slot, meal_total) =
       Some (used', fst (fill_from (prefilter used S) slot meal_total), meal_total') \<and>
     prefilter used' S = snd (fill_from (prefilter used S) slot meal_total)"
proof (induction "prefilter used S" arbitrary: used slot meal_total)
  case Nil
  then show ?case
    by (subst fill_slot.simps) (auto simp: not_less)
next
  case (Cons x P)
  show ?case
  proof (cases "meal_total < 1200 \<and> length slot < 6")
    case False
    then show ?thesis using Cons.hyps(2)[symmetric]
      by (subst fill_slot.simps) auto
  next
    case True
    have P: "prefilter (insert (name x) used) S = P"
      using Cons.hyps(2)[symmetric] by (rule prefilter_step)
    have "supplied P (length (slot @ [x])) (meal_total + calories x)"
      using Cons.prems True Cons.hyps(2)[symmetric] by simp
    from Cons.hyps(1)[OF P[symmetric], of "slot @ [x]" "meal_total + calories x"] this P
    obtain used' meal_total' where
      "fill_slot S (insert (name x) used, slot @ [x], meal_total + calories x) =
         Some (used', fst (fill_from P (slot @ [x]) (meal_total + calories x)), meal_total')"
      "prefilter used' S = snd (fill_from P (slot @ [x]) (meal_total + calories x))"
      by auto
    moreover have "first_unused used S = Some x"
      using Cons.hyps(2)[symmetric] by (simp add: first_unused_prefilter)
    ultimately show ?thesis using True Cons.hyps(2)[symmetric]
      by (subst fill_slot.simps) auto
  qed
qed

lemma supplied_if:
  "j \<le> length P \<Longrightarrow>
   6 \<le> len + j \<or> 1200 \<le> meal_total + sum_list (map calories (take j P)) \<Longrightarrow>
   supplied P len meal_total"
proof (induction P arbitrary: len meal_total j)
  case Nil
  then show ?case by auto
next
  case (Cons x xs)
  show ?case
  proof (cases "meal_total < 1200 \<and> len < 6")
    case False
    then show ?thesis by auto
  next
    case True
    with Cons.prems obtain j' where j: "j = Suc j'"
      by (cases j) auto
    have "supplied xs (Suc len) (meal_total + calories x)"
      using Cons.prems j by (intro Cons.IH[of j']) (auto simp: algebra_simps)
    then show ?thesis using True by simp
  qed
qed

lemma fill_from_eq:
  "fill_from P slot meal_total =
     (slot @ take (fill_count P (length slot) meal_total) P,
      drop (fill_count P (length slot) meal_total) P)"
  by (induction P arbitrary: slot meal_total) auto

lemma fill_count_le:
  "j \<le> length P \<Longrightarrow>
   6 \<le> len + j \<or> 1200 \<le> meal_total + sum_list (map calories (take j P)) \<Longrightarrow>
   fill_count P len meal_total \<le> j"
proof (induction P arbitrary: len meal_total j)
  case Nil
  then show ?case by auto
next
  case (Cons x xs)
  show ?case
  proof (cases "meal_total < 1200 \<and> len < 6")
    case False
    then show ?thesis by auto
  next
    case True
    with Cons.prems obtain j' where j: "j = Suc j'"
      by (cases j) auto
    have "fill_count xs (Suc len) (meal_total + calories x) \<le> j'"
      using Cons.prems j by (intro Cons.IH[of j']) (auto simp: algebra_simps)
    then show ?thesis using True j by simp
  qed
qed

lemma fill_count_length: "fill_count P len meal_total \<le> length P"
  by (induction P arbitrary: len meal_total) auto

lemma fill_count_cap: "len \<le> 6 \<Longrightarrow> len + fill_count P len meal_total \<le> 6"
proof (induction P arbitrary: len meal_total)
  case Nil
  then show ?case by simp
next
  case (Cons x xs)
  from Cons.prems Cons.IH[of "Suc len" "meal_total + calories x"] show ?case
    by auto
qed

lemma fill_count_pos: "P \<noteq> [] \<Longrightarrow> meal_total < 1200 \<Longrightarrow> len < 6 \<Longrightarrow> 0 < fill_count P len meal_total"
  by (cases P) auto

lemma fill_count_running:
  "k < fill_count P len meal_total \<Longrightarrow>
   meal_total + sum_list (map calories (take k P)) < 1200 \<and> len + k < 6"
proof (induction P arbitrary: len meal_total k)
  case Nil
  then show ?case by simp
next
  case (Cons x xs)
  from Cons.prems have c: "meal_total < 1200" "len < 6"
    by (auto split: if_splits)
  show ?case
  proof (cases k)
    case 0
    then show ?thesis using c by simp
  next
    case (Suc k')
    with Cons.prems c have "k' < fill_count xs (Suc len) (meal_total + calories x)"
      by simp
    from Cons.IH[OF this] show ?thesis using Suc
      by (simp add: algebra_simps)
  qed
qed

section \<open>The catalog among the first occurrences\<close>

lemma items_sorted_desc:
  "sorted_wrt (\<lambda>a b. calories b \<le> calories a) (items_sorted items)"
proof -
  have "sorted (map (\<lambda>x. - calories x) (items_sorted items))"
    unfolding items_sorted_def by (rule sorted_sort_key)
  then show ?thesis by (simp add: sorted_map)
qed

lemma set_prefilter: "set (prefilter used S) \<subseteq> set S"
  by (induction S arbitrary: used) auto

lemma sorted_wrt_prefilter:
  "sorted_wrt R S \<Longrightarrow> sorted_wrt R (prefilter used S)"
proof (induction S arbitrary: used)
  case Nil
  then show ?case by simp
next
  case (Cons x xs)
  then show ?case using set_prefilter[of "insert (name x) used" xs]
    by auto
qed

lemma prefilter_names:
  "distinct (map name (prefilter used S)) \<and> name ` set (prefilter used S) \<inter> used = {}"
proof (induction S arbitrary: used)
  case Nil
  then show ?case by simp
next
  case (Cons x xs)
  from Cons[of used] Cons[of "insert (name x) used"] show ?case
    by auto
qed

lemma prefilter_covers:
  "sorted_wrt (\<lambda>a b. calories b \<le> calories a) S \<Longrightarrow> c \<in> set S \<Longrightarrow> name c \<notin> used \<Longrightarrow>
   \<exists>x \<in> set (prefilter used S). name x = name c \<and> calories c \<le> calories x"
proof (induction S arbitrary: used)
  case Nil
  then show ?case by simp
next
  case (Cons y ys)
  show ?case
  proof (cases "name y = name c")
    case True
    with Cons.prems show ?thesis by auto
  next
    case False
    with Cons.prems have "c \<in> set ys" by auto
    show ?thesis
    proof (cases "name y \<in> used")
      case True
      with Cons.IH[of used] Cons.prems \<open>c \<in> set ys\<close> show ?thesis by auto
    next
      case n: False
      from False Cons.prems have "name c \<notin> insert (name y) used" by auto
      with Cons.IH[of "insert (name y) used"] Cons.prems \<open>c \<in> set ys\<close> n show ?thesis
        by auto
    qed
  qed
qed

lemma sorted_desc_nth:
  "sorted_wrt (\<lambda>a b. calories b \<le> calories a) P \<Longrightarrow>
   i < length (filter (\<lambda>x. v \<le> calories x) P) \<Longrightarrow>
   i < length P \<and> v \<le> calories (P ! i)"
proof (induction P arbitrary: i)
  case Nil
  then show ?case by simp
next
  case (Cons x xs)
  show ?case
  proof (cases "v \<le> calories x")
    case True
    with Cons show ?thesis by (cases i) auto
  next
    case False
    with Cons.prems(1) have "filter (\<lambda>x. v \<le> calories x) xs = []"
      by (auto simp: filter_empty_conv)
    with False Cons.prems(2) show ?thesis by simp
  qed
qed

lemma catalog_count:
  "card (name ` set (filter (\<lambda>c. v \<le> calories c) ALWAYS_AVAILABLE))
     \<le> length (filter (\<lambda>x. v \<le> calories x) (prefilter {} (items_sorted items)))"
proof -
  let ?S = "items_sorted items"
  let ?F = "filter (\<lambda>x. v \<le> calories x) (prefilter {} ?S)"
  have "name ` set (filter (\<lambda>c. v \<le> calories c) ALWAYS_AVAILABLE) \<subseteq> name ` set ?F"
  proof
    fix n assume "n \<in> name ` set (filter (\<lambda>c. v \<le> calories c) ALWAYS_AVAILABLE)"
    then obtain c where c: "c \<in> set ALWAYS_AVAILABLE" "v \<le> calories c" "n = name c"
      by auto
    then have "c \<in> set ?S" by (simp add: items_sorted_def)
    from prefilter_covers[OF items_sorted_desc this, of "{}"]
    obtain x where "x \<in> set (prefilter {} ?S)" "name x = name c" "calories c \<le> calories x"
      by auto
    with c have "x \<in> set ?F" by simp
    then have "name x \<in> name ` set ?F" by (rule imageI)
    with \<open>name x = name c\<close> c show "n \<in> name ` set ?F" by simp
  qed
  then have "card (name ` set (filter (\<lambda>c. v \<le> calories c) ALWAYS_AVAILABLE)) \<le> card (name ` set ?F)"
    by (intro card_mono) auto
  also have "\<dots> \<le> card (set ?F)" by (rule card_image_le) simp
  also have "\<dots> \<le> length ?F" by (rule card_length)
  finally show ?thesis .
qed

lemma catalog_cards:
  "card (name ` set (filter (\<lambda>c. 600 \<le> calories c) ALWAYS_AVAILABLE)) = 1"
  "card (name ` set (filter (\<lambda>c. 500 \<le> calories c) ALWAYS_AVAILABLE)) = 2"
  "card (name ` set (filter (\<lambda>c. 400 \<le> calories c) ALWAYS_AVAILABLE)) = 3"
  "card (name ` set (filter (\<lambda>c. 350 \<le> calories c) ALWAYS_AVAILABLE)) = 4"
  "card (name ` set (filter (\<lambda>c. 300 \<le> calories c) ALWAYS_AVAILABLE)) = 6"
  "card (name ` set (filter (\<lambda>c. 250 \<le> calories c) ALWAYS_AVAILABLE)) = 7"
  "card (name ` set (filter (\<lambda>c. 150 \<le> calories c) ALWAYS_AVAILABLE)) = 8"
  by (simp_all add: ALWAYS_AVAILABLE_def)

lemma top_eight:
  fixes items
  defines "P \<equiv> prefilter {} (items_sorted items)"
  shows "8 \<le> length P"
    and "600 \<le> calories (P ! 0)" and "500 \<le> calories (P ! 1)"
    and "400 \<le> calories (P ! 2)" and "350 \<le> calories (P ! 3)"
    and "300 \<le> calories (P ! 4)" and "300 \<le> calories (P ! 5)"
    and "250 \<le> calories (P ! 6)" and "150 \<le> calories (P ! 7)"
proof -
  have s: "sorted_wrt (\<lambda>a b. calories b \<le> calories a) P"
    unfolding P_def by (rule sorted_wrt_prefilter[OF items_sorted_desc])
  have n: "i < length P \<and> v \<le> calories (P ! i)"
    if "card (name ` set (filter (\<lambda>c. v \<le> calories c) ALWAYS_AVAILABLE)) = k" "i < k"
    for v i k
  proof (rule sorted_desc_nth[OF s])
    from that catalog_count[of v items]
    show "i < length (filter (\<lambda>x. v \<le> calories x) P)"
      unfolding P_def by linarith
  qed
  from n[OF catalog_cards(7), of 7] show "8 \<le> length P" by simp
  from n[OF catalog_cards(1), of 0] show "600 \<le> calories (P ! 0)" by simp
  from n[OF catalog_cards(2), of 1] show "500 \<le> calories (P ! 1)" by simp
  from n[OF catalog_cards(3), of 2] show "400 \<le> calories (P ! 2)" by simp
  from n[OF catalog_cards(4), of 3] show "350 \<le> calories (P ! 3)" by simp
  from n[OF catalog_cards(5), of 4] show "300 \<le> calories (P ! 4)" by simp
  from n[OF catalog_cards(5), of 5] show "300 \<le> calories (P ! 5)" by simp
  from n[OF catalog_cards(6), of 6] show "250 \<le> calories (P ! 6)" by simp
  from n[OF catalog_cards(7), of 7] show "150 \<le> calories (P ! 7)" by simp
qed

lemma length_ge_8E:
  assumes "8 \<le> length (P :: 'a list)"
  obtains a0 a1 a2 a3 a4 a5 a6 a7 r where "P = a0 # a1 # a2 # a3 # a4 # a5 # a6 # a7 # r"
  using assms by (auto simp: eval_nat_numeral Suc_le_length_iff)

lemma catalog_prefix:
  obtains a0 a1 a2 a3 a4 a5 a6 a7 r where
    "prefilter {} (items_sorted items) = a0 # a1 # a2 # a3 # a4 # a5 # a6 # a7 # r"
    "600 \<le> calories a0" "500 \<le> calories a1" "400 \<le> calories a2" "350 \<le> calories a3"
    "300 \<le> calories a4" "300 \<le> calories a5" "250 \<le> calories a6" "150 \<le> calories a7"
proof -
  from top_eight(1)[of items] obtain a0 a1 a2 a3 a4 a5 a6 a7 r where
    P: "prefilter {} (items_sorted items) = a0 # a1 # a2 # a3 # a4 # a5 # a6 # a7 # r"
    by (rule length_ge_8E)
  show ?thesis
    using top_eight(2-9)[of items] by (intro that[OF P]) (simp_all add: P)
qed

lemma breakfast_supplied: "supplied (prefilter {} (items_sorted items)) 0 0"
  using top_eight(1)[of items] by (intro supplied_if[of 6]) auto

lemma breakfast_count: "fill_count (prefilter {} (items_sorted items)) 0 0 \<le> 3"
proof -
  obtain a0 a1 a2 a3 a4 a5 a6 a7 r where
    P: "prefilter {} (items_sorted items) = a0 # a1 # a2 # a3 # a4 # a5 # a6 # a7 # r"
    and c: "600 \<le> calories a0" "500 \<le> calories a1" "400 \<le> calories a2"
    by (rule catalog_prefix[of items])
  show ?thesis
    unfolding P using c by (intro fill_count_le) (auto simp: eval_nat_numeral)
qed

lemma dinner_supplied:
  "supplied (snd (fill_from (prefilter {} (items_sorted items)) [] 0)) 0 0"
proof -
  obtain a0 a1 a2 a3 a4 a5 a6 a7 r where
    P: "prefilter {} (items_sorted items) = a0 # a1 # a2 # a3 # a4 # a5 # a6 # a7 # r"
    and c: "350 \<le> calories a3" "300 \<le> calories a4" "300 \<le> calories a5"
      "250 \<le> calories a6" "150 \<le> calories a7"
    by (rule catalog_prefix[of items])
  define k where "k = fill_count (prefilter {} (items_sorted items)) 0 0"
  have k: "k \<le> 3" unfolding k_def by (rule breakfast_count)
  have rest: "snd (fill_from (prefilter {} (items_sorted items)) [] 0)
      = drop k (a0 # a1 # a2 # a3 # a4 # a5 # a6 # a7 # r)"
    by (simp add: fill_from_eq k_def P)
  show ?thesis
  proof (cases "k = 3")
    case True
    show ?thesis unfolding rest True using c
      by (intro supplied_if[of 5]) (auto simp: eval_nat_numeral)
  next
    case False
    with k have "k \<le> 2" by simp
    then show ?thesis unfolding rest
      by (intro supplied_if[of 6]) auto
  qed
qed

lemma build_plan_single_pass: "build_plan items = Some (single_pass_plan items)"
proof -
  let ?S = "items_sorted items"
  let ?P = "prefilter {} ?S"
  from fill_slot_prefilter[of "{}" ?S "[]" 0] breakfast_supplied[of items]
  obtain used1 t1 where
    b: "fill_slot ?S ({}, [], 0) = Some (used1, fst (fill_from ?P [] 0), t1)"
    and r: "prefilter used1 ?S = snd (fill_from ?P [] 0)"
    by auto
  from fill_slot_prefilter[of used1 ?S "[]" 0] dinner_supplied[of items] r
  obtain used2 t2 where
    d: "fill_slot ?S (used1, [], 0) = Some (used2, fst (fill_from (snd (fill_from ?P [] 0)) [] 0), t2)"
    by auto
  show ?thesis
    by (simp add: build_plan_def b d single_pass_plan_def split_beta)
qed

section \<open>Properties of the plan\<close>

lemma single_pass_plan_takes:
  "single_pass_plan items =
     \<lparr>Breakfast = take (fill_count (prefilter {} (items_sorted items)) 0 0)
                    (prefilter {} (items_sorted items)),
      Dinner = take (fill_count (drop (fill_count (prefilter {} (items_sorted items)) 0 0)
                       (prefilter {} (items_sorted items))) 0 0)
                 (drop (fill_count (prefilter {} (items_sorted items)) 0 0)
                       (prefilter {} (items_sorted items)))\<rparr>"
  by (simp add: single_pass_plan_def fill_from_eq)

lemma plan_prefix:
  "\<exists>n. Breakfast (single_pass_plan items) @ Dinner (single_pass_plan items)
        = take n (prefilter {} (items_sorted items))"
  unfolding single_pass_plan_takes by (auto simp: take_add[symmetric])

lemma fill_from_slot:
  assumes "P \<noteq> []"
  shows "1 \<le> length (fst (fill_from P [] 0)) \<and> length (fst (fill_from P [] 0)) \<le> 6 \<and>
     (\<forall>k < length (fst (fill_from P [] 0)).
        sum_list (map calories (take k (fst (fill_from P [] 0)))) < 1200)"
proof -
  let ?k = "fill_count P 0 0"
  have slot: "fst (fill_from P [] 0) = take ?k P" by (simp add: fill_from_eq)
  have len: "length (take ?k P) = ?k"
    using fill_count_length[of P 0 0] by simp
  have "0 < ?k" using assms by (intro fill_count_pos) auto
  moreover have "?k \<le> 6" using fill_count_cap[of 0 P 0] by simp
  moreover have "sum_list (map calories (take k (take ?k P))) < 1200" if "k < ?k" for k
  proof -
    from that have "take k (take ?k P) = take k P" by (simp add: min_def)
    with fill_count_running[OF that] show ?thesis by simp
  qed
  ultimately show ?thesis unfolding slot len by auto
qed

lemma single_pass_rest_nonempty:
  "snd (fill_from (prefilter {} (items_sorted items)) [] 0) \<noteq> []"
  using breakfast_count[of items] top_eight(1)[of items] by (simp add: fill_from_eq)

lemma prefilter_nonempty: "prefilter {} (items_sorted items) \<noteq> []"
  using top_eight(1)[of items] by auto


text \<open>The plan for an empty menu: the catalog alone.\<close>

lemma plan_empty:
  "build_plan [] = Some
     \<lparr>Breakfast =
        [\<lparr>name = ''Deli sandwich'', calories = 600\<rparr>,
         \<lparr>name = ''Pasta with sauce'', calories = 500\<rparr>,
         \<lparr>name = ''Chicken tenders'', calories = 400\<rparr>],
      Dinner =
        [\<lparr>name = ''Pizza'', calories = 350\<rparr>,
         \<lparr>name = ''Salad bar'', calories = 300\<rparr>,
         \<lparr>name = ''French fries'', calories = 300\<rparr>,
         \<lparr>name = ''Grilled chicken'', calories = 250\<rparr>]\<rparr>"
  by (simp add: build_plan_def items_sorted_def ALWAYS_AVAILABLE_def fill_slot.simps
      first_unused_def)




text \<open>
  Claim C2. For every item list the returned plan holds between 1 and 6 items in each of
  Breakfast and Dinner, and every item of a slot was added while the slot's running total
  (the calories of the items before it) was below 1200 kcal and the slot held fewer than 6
  items: a slot receives nothing once its total is at least 1200 or it holds 6 items.
\<close>

theorem build_plan_slot_sizes:
  "\<exists>p. build_plan items = Some p \<and>
     (1 \<le> length (Breakfast p) \<and> length (Breakfast p) \<le> 6 \<and>
      (\<forall>k < length (Breakfast p). sum_list (map calories (take k (Breakfast p))) < 1200)) \<and>
     (1 \<le> length (Dinner p) \<and> length (Dinner p) \<le> 6 \<and>
      (\<forall>k < length (Dinner p). sum_list (map calories (take k (Dinner p))) < 1200))"
proof -
  let ?P = "prefilter {} (items_sorted items)"
  have b: "Breakfast (single_pass_plan items) = fst (fill_from ?P [] 0)"
    by (simp add: single_pass_plan_def split_beta)
  have d: "Dinner (single_pass_plan items) = fst (fill_from (snd (fill_from ?P [] 0)) [] 0)"
    by (simp add: single_pass_plan_def split_beta)
  show ?thesis
    unfolding build_plan_single_pass
    using fill_from_slot[OF prefilter_nonempty[of items]]
      fill_from_slot[OF single_pass_rest_nonempty[of items]]
    by (simp add: b d)
qed

theorem build_plan_slot_sizes_witness:
  "\<exists>p. build_plan [] = Some p \<and> length (Breakfast p) = 3 \<and> length (Dinner p) = 4 \<and>
     sum_list (map calories (take 2 (Breakfast p))) < 1200 \<and>
     sum_list (map calories (take 3 (Dinner p))) < 1200"
  using build_plan_slot_sizes[of "[]"] by (simp add: plan_empty)

text \<open>
  Claim C3. For every item list no name occurs twice in the returned plan: the names of
  Breakfast followed by those of Dinner are pairwise distinct.
\<close>

theorem build_plan_names_unique:
  "\<exists>p. build_plan items = Some p \<and> distinct (map name (Breakfast p @ Dinner p))"
proof -
  obtain n where "Breakfast (single_pass_plan items) @ Dinner (single_pass_plan items)
        = take n (prefilter {} (items_sorted items))"
    using plan_prefix by blast
  moreover have "distinct (map name (take n (prefilter {} (items_sorted items))))"
    using prefilter_names[of "{}" "items_sorted items"]
    by (simp add: take_map[symmetric] distinct_take del: take_map)
  ultimately show ?thesis
    by (simp add: build_plan_single_pass del: map_append)
qed

theorem build_plan_names_unique_witness:
  "\<exists>p. build_plan [\<lparr>name = ''Pizza'', calories = 900\<rparr>, \<lparr>name = ''Pizza'', calories = 200\<rparr>]
        = Some p \<and> distinct (map name (Breakfast p @ Dinner p))"
  using build_plan_names_unique
    [of "[\<lparr>name = ''Pizza'', calories = 900\<rparr>, \<lparr>name = ''Pizza'', calories = 200\<rparr>]"]
  by simp







section \<open>Properties of the menu fetcher\<close>

lemma fetch_json_exhausted:
  "\<forall>u \<in> set cs. \<not> usable get u \<Longrightarrow> fetch_json get cs = (Inl RuntimeError, cs)"
  by (induction cs) (auto simp: usable_def split: response.splits option.splits)

lemma fetch_json_accepts:
  "\<forall>x \<in> set pre. \<not> usable get x \<Longrightarrow> get u = Response 200 (Some j) \<Longrightarrow>
   fetch_json get (pre @ u # post) = (Inr j, pre @ [u])"
  by (induction pre) (auto simp: usable_def split: response.splits option.splits)

lemma fetch_json_fails_iff:
  "(fst (fetch_json get cs) = Inl RuntimeError) = (\<forall>u \<in> set cs. \<not> usable get u)"
  by (induction cs) (auto simp: usable_def split: response.splits option.splits prod.splits)

text \<open>
  Claim C4, as stated, fails where a candidate answers 200 with a body that is not JSON:
  in the example network, \<^verbatim>\<open>a\<close> is the first candidate that responds with HTTP 200, yet the
  fetcher goes on to request \<^verbatim>\<open>b\<close> and returns the JSON of \<^verbatim>\<open>b\<close>.
\<close>

theorem fetch_json_unparsable_200:
  "example_net ''a'' = Response 200 None \<and>
   fetch_json example_net [''a'', ''b''] = (Inr (JNum 1), [''a'', ''b''])"
  by (simp add: example_net_def)

text \<open>
  Claim C4, amended. \<open>fetch_json\<close> tries the candidates in order and returns the parsed JSON
  of the first candidate that responds with HTTP 200 and a body that parses as JSON, having
  requested the candidates up to that one and no later one; a network error, a status other
  than 200 or a body that does not parse is passed over; and it raises its error exactly when
  no candidate is usable in this sense, the empty candidate list included.
\<close>

theorem fetch_json_first_usable:
  "((\<forall>x \<in> set pre. \<not> usable get x) \<and> get u = Response 200 (Some j) \<longrightarrow>
      fetch_json get (pre @ u # post) = (Inr j, pre @ [u])) \<and>
   ((\<forall>u \<in> set cs. \<not> usable get u) \<longrightarrow> fetch_json get cs = (Inl RuntimeError, cs)) \<and>
   ((fst (fetch_json get cs) = Inl RuntimeError) = (\<forall>u \<in> set cs. \<not> usable get u))"
  using fetch_json_exhausted fetch_json_accepts fetch_json_fails_iff by blast

theorem fetch_json_first_usable_witness:
  "fetch_json example_net [''c'', ''a'', ''b'', ''d''] = (Inr (JNum 1), [''c'', ''a'', ''b'']) \<and>
   fetch_json example_net [''c'', ''a''] = (Inl RuntimeError, [''c'', ''a'']) \<and>
   fetch_json example_net [] = (Inl RuntimeError, [])"
  using fetch_json_first_usable
      [of "[''c'', ''a'']" example_net "''b''" "JNum 1" "[''d'']" "[''c'', ''a'']"]
    fetch_json_first_usable [of "[]" example_net "''b''" "JNum 1" "[]" "[]"]
  by (simp add: example_net_def usable_def)

section \<open>Properties of the item extractor\<close>

lemmas extractor_defs = entry_item_def py_or_def is_excluded_def str_lower_def lower_char_def
  str_strip_def is_space_def sublist_code(3)

lemma example_week_items:
  "extract_items no_parse ''2026-11-04'' example_week =
     Inr [\<lparr>name = ''Burger'', calories = 900\<rparr>, \<lparr>name = ''Soda'', calories = 200\<rparr>,
          \<lparr>name = ''Soup'', calories = 250\<rparr>, \<lparr>name = ''Unknown'', calories = 250\<rparr>]"
  by (simp add: extract_items_def example_week_def example_days_def extractor_defs)

lemma entry_item_not_excluded:
  "entry_item parse mi = Inr (Some it) \<Longrightarrow> \<not> is_excluded (name it)"
  by (auto simp: entry_item_def Let_def split: sum.splits if_splits)

lemma menu_items_loop_not_excluded:
  "menu_items_loop parse mis acc = Inr items \<Longrightarrow>
   \<forall>it \<in> set acc. \<not> is_excluded (name it) \<Longrightarrow>
   \<forall>it \<in> set items. \<not> is_excluded (name it)"
proof (induction mis arbitrary: acc)
  case Nil
  then show ?case by simp
next
  case (Cons mi rest)
  show ?case
  proof (cases "entry_item parse mi")
    case (Inl e)
    with Cons.prems show ?thesis by simp
  next
    case (Inr r)
    show ?thesis
    proof (cases r)
      case None
      with Inr Cons.prems Cons.IH[of acc] show ?thesis by simp
    next
      case (Some it)
      with Inr have "\<not> is_excluded (name it)" by (simp add: entry_item_not_excluded)
      with Some Inr Cons.prems Cons.IH[of "acc @ [it]"] show ?thesis by simp
    qed
  qed
qed

lemma days_loop_not_excluded:
  "days_loop parse today_str ds acc = Inr items \<Longrightarrow>
   \<forall>it \<in> set acc. \<not> is_excluded (name it) \<Longrightarrow>
   \<forall>it \<in> set items. \<not> is_excluded (name it)"
proof (induction ds arbitrary: acc)
  case Nil
  then show ?case by simp
next
  case (Cons d rest)
  from Cons.prems(1) obtain date where date: "py_get d ''date'' JNull = Inr date"
    by (auto split: sum.splits)
  show ?case
  proof (cases "date = JStr today_str")
    case False
    with date Cons.prems(1) have "days_loop parse today_str rest acc = Inr items"
      by simp
    from Cons.IH[OF this Cons.prems(2)] show ?thesis .
  next
    case True
    with date Cons.prems(1) obtain mis items' where
      m: "menu_items_loop parse mis acc = Inr items'"
      and r: "days_loop parse today_str rest items' = Inr items"
      by (auto split: sum.splits)
    from menu_items_loop_not_excluded[OF m Cons.prems(2)]
    have "\<forall>it \<in> set items'. \<not> is_excluded (name it)" .
    from Cons.IH[OF r this] show ?thesis .
  qed
qed

text \<open>
  Claim C6. Whatever the fetched data, no item of the list \<open>extract_items\<close> returns has a
  name that contains \<^verbatim>\<open>fish\<close>, \<^verbatim>\<open>salmon\<close> or \<^verbatim>\<open>tilapia\<close> once lowercased.
\<close>

theorem extract_items_excludes_fish:
  "extract_items parse today_str week_json = Inr items \<Longrightarrow> it \<in> set items \<Longrightarrow>
   \<not> sublist ''fish'' (str_lower (name it)) \<and>
   \<not> sublist ''salmon'' (str_lower (name it)) \<and>
   \<not> sublist ''tilapia'' (str_lower (name it))"
proof -
  assume a: "extract_items parse today_str week_json = Inr items" and i: "it \<in> set items"
  from a obtain ds where "days_loop parse today_str ds [] = Inr items"
    by (auto simp: extract_items_def split: sum.splits)
  from days_loop_not_excluded[OF this] i have "\<not> is_excluded (name it)" by simp
  then show ?thesis by (simp add: is_excluded_def)
qed

theorem extract_items_excludes_fish_witness:
  "extract_items no_parse ''2026-11-04'' example_week =
     Inr [\<lparr>name = ''Burger'', calories = 900\<rparr>, \<lparr>name = ''Soda'', calories = 200\<rparr>,
          \<lparr>name = ''Soup'', calories = 250\<rparr>, \<lparr>name = ''Unknown'', calories = 250\<rparr>] \<and>
   \<not> sublist ''fish'' (str_lower ''Soda'') \<and>
   \<not> sublist ''salmon'' (str_lower ''Soda'') \<and>
   \<not> sublist ''tilapia'' (str_lower ''Soda'')"
  using extract_items_excludes_fish[OF example_week_items, of "\<lparr>name = ''Soda'', calories = 200\<rparr>"]
    example_week_items
  by simp





subsection \<open>Name and calories of one menu entry\<close>

lemma py_get_field: "py_get x k JNull = Inr v \<Longrightarrow> v = json_field k x"
  by (cases x) auto

lemma py_get_obj: "py_get x k dflt = Inr v \<Longrightarrow> \<exists>kvs. x = JObj kvs"
  by (cases x) auto

lemma json_field_falsy: "\<not> truthy x \<Longrightarrow> json_field k x = JNull"
  by (cases x) auto

lemma json_field_default:
  "py_get mi k (JObj []) = Inr ad \<Longrightarrow> json_field k' ad = json_field k' (json_field k mi)"
  by (cases mi) (auto split: option.splits)

text \<open>
  Claim C8, as stated, fails on the name: in the example entry the nested food-name field is
  present (it is the empty string), yet the item is named after the plain text field.
\<close>

theorem entry_item_empty_food_name:
  "json_field ''name'' (json_field ''food'' example_entry) = JStr [] \<and>
   entry_item no_parse example_entry = Inr (Some \<lparr>name = ''Soup'', calories = 250\<rparr>) \<and>
   str_strip [] \<noteq> ''Soup''"
  by (simp add: example_entry_def extractor_defs)

text \<open>
  Claim C8, amended. For a menu entry that yields an item, the calories are the nested
  rounded-nutrition calorie field if it is truthy, else the aggregated-data calorie field if
  it is truthy, else 250 (so a value of 0 or an absent field yields 250); the name is the
  nested food-name field if it is truthy (present and not empty), else the plain text field
  if it is truthy, else \<^verbatim>\<open>Unknown\<close>, trimmed of surrounding whitespace.
\<close>

theorem entry_item_fields:
  assumes "entry_item parse mi = Inr (Some it)"
  shows "py_strip (if truthy (json_field ''name'' (json_field ''food'' mi))
                   then json_field ''name'' (json_field ''food'' mi)
                   else if truthy (json_field ''text'' mi) then json_field ''text'' mi
                   else JStr ''Unknown'') = Inr (name it) \<and>
         (if truthy (json_field ''calories''
                      (json_field ''rounded_nutrition_info'' (json_field ''food'' mi)))
          then py_float parse (json_field ''calories''
                      (json_field ''rounded_nutrition_info'' (json_field ''food'' mi)))
          else if truthy (json_field ''calories'' (json_field ''aggregated_data'' mi))
          then py_float parse (json_field ''calories'' (json_field ''aggregated_data'' mi))
          else Inr 250) = Inr (calories it)"
proof -
  let ?fv = "json_field ''food'' mi"
  let ?food = "py_or ?fv (JObj [])"
  let ?fname = "json_field ''name'' ?fv"
  let ?rv = "json_field ''rounded_nutrition_info'' ?fv"
  let ?rc = "json_field ''calories'' ?rv"
  let ?ac = "json_field ''calories'' (json_field ''aggregated_data'' mi)"
  let ?nt = "if truthy ?fname then ?fname else json_field ''text'' mi"
  from assms obtain kvs where mi: "mi = JObj kvs"
    by (auto simp: entry_item_def split: sum.splits dest: py_get_obj)
  have fv: "py_get mi ''food'' JNull = Inr ?fv"
    by (simp add: mi)
  have tx: "py_get mi ''text'' JNull = Inr (json_field ''text'' mi)"
    by (simp add: mi)
  from assms fv obtain fkvs where food: "?food = JObj fkvs"
    by (auto simp: entry_item_def Let_def split: sum.splits dest: py_get_obj)
  have ff: "json_field k ?food = json_field k ?fv" for k
    by (simp add: py_or_def json_field_falsy)
  have fn: "py_get ?food ''name'' JNull = Inr ?fname"
    using ff[of "''name''"] by (simp add: food)
  have rv: "py_get ?food ''rounded_nutrition_info'' JNull = Inr ?rv"
    using ff[of "''rounded_nutrition_info''"] by (simp add: food)
  have nt: "(if truthy ?fname then Inr ?fname else py_get mi ''text'' JNull) = Inr ?nt"
    by (simp add: tx)
  note step1 = assms[unfolded entry_item_def Let_def fv sum.case fn nt rv]
  from step1 obtain nm where nm: "py_strip (py_or ?nt (JStr ''Unknown'')) = Inr nm"
    by (cases "py_strip (py_or ?nt (JStr ''Unknown''))") auto
  have ex: "\<not> is_excluded nm"
    using step1 unfolding nm sum.case by (auto split: if_splits)
  note step2 = step1[unfolded nm sum.case if_not_P[OF ex]]
  from step2 obtain rkvs where rounded: "py_or ?rv (JObj []) = JObj rkvs"
    by (auto split: sum.splits dest: py_get_obj)
  have rc: "py_get (py_or ?rv (JObj [])) ''calories'' JNull = Inr ?rc"
    using rounded by (simp add: py_or_def json_field_falsy split: if_splits)
  note step3 = step2[unfolded rc sum.case]
  have name_ok: "py_strip (if truthy ?fname then ?fname
                   else if truthy (json_field ''text'' mi) then json_field ''text'' mi
                   else JStr ''Unknown'') = Inr (name it)"
  proof -
    from step3 have "name it = nm" by (auto split: sum.splits if_splits)
    with nm show ?thesis by (auto simp: py_or_def split: if_splits)
  qed
  have cal_ok: "(if truthy ?rc then py_float parse ?rc
          else if truthy ?ac then py_float parse ?ac
          else Inr 250) = Inr (calories it)"
  proof (cases "truthy ?rc")
    case True
    with step3 show ?thesis by (auto split: sum.splits)
  next
    case False
    with step3 obtain ad ac' where ad: "py_get mi ''aggregated_data'' (JObj []) = Inr ad"
      and ac': "py_get ad ''calories'' JNull = Inr ac'"
      by (auto split: sum.splits)
    have ac: "py_get ad ''calories'' JNull = Inr ?ac"
      using py_get_field[OF ac'] json_field_default[OF ad, of "''calories''"] ac' by simp
    from step3 False show ?thesis
      unfolding ad ac if_not_P[OF False] sum.case
      by (auto split: sum.splits if_splits)
  qed
  from name_ok cal_ok show ?thesis by (rule conjI)
qed

theorem entry_item_fields_witness:
  "entry_item no_parse example_entry_calories = Inr (Some \<lparr>name = ''Burger'', calories = 640\<rparr>) \<and>
   py_strip (JStr '' Burger '') = Inr ''Burger'' \<and>
   py_float no_parse (JNum 640) = Inr 640"
proof -
  have e: "entry_item no_parse example_entry_calories
      = Inr (Some \<lparr>name = ''Burger'', calories = 640\<rparr>)"
    by (simp add: example_entry_calories_def extractor_defs)
  from entry_item_fields[OF e] e show ?thesis
    by (simp add: example_entry_calories_def)
qed

end
